theory Spec2Isabelle
  imports Main "HOL-Library.AList" "HOL-Library.Sublist"
begin

section \<open>Platform objects\<close>

text \<open>
  The objects of the chat library that the bot reads. Only the attributes the source
  touches are kept: \<^verbatim>\<open>user.id\<close>, \<^verbatim>\<open>display_name\<close>, \<^verbatim>\<open>guild.id\<close>,
  \<^verbatim>\<open>guild.name\<close>, \<^verbatim>\<open>guild.get_member\<close>, \<^verbatim>\<open>channel.id\<close>,
  \<^verbatim>\<open>channel.guild\<close> and the five attributes of a message. Identifiers are Python
  integers.
\<close>

record user =
  user_id :: int
  display_name :: string

record guild =
  guild_id :: int
  guild_name :: string
  guild_members :: "user list"

definition get_member :: "guild \<Rightarrow> int \<Rightarrow> user option" where
  "get_member g uid = find (\<lambda>u. user_id u = uid) (guild_members g)"

record channel =
  channel_id :: int
  channel_guild :: guild

text \<open>\<^verbatim>\<open>message.guild\<close> is \<^verbatim>\<open>None\<close> for a direct message.\<close>

record message =
  msg_author :: user
  msg_guild :: "guild option"
  msg_channel :: channel
  msg_content :: string
  msg_mentions :: "user list"

datatype py_error = AttributeError | KeyError | ValueError | JSONDecodeError | OSError | RuntimeError

section \<open>The three tables\<close>

text \<open>
  A Python dict keeps its keys unique and in insertion order; it is an association list
  here. \<^verbatim>\<open>d.get(k)\<close> is \<^const>\<open>map_of\<close>, \<^verbatim>\<open>d[k] = v\<close> is
  \<^const>\<open>AList.update\<close> (the value is replaced where the key stands, a new key goes to
  the end). A channel whose id did not resolve when the settings were loaded is
  \<^verbatim>\<open>None\<close>.
\<close>

record settings =
  group_mappings :: "(string \<times> (int \<times> channel option) list) list"
  relay_enabled :: "(string \<times> (int \<times> bool) list) list"
  server_groups :: "(int \<times> string) list"

definition get_or :: "('k \<times> 'v) list \<Rightarrow> 'k \<Rightarrow> 'v \<Rightarrow> 'v" where
  "get_or d k dflt = (case map_of d k of None \<Rightarrow> dflt | Some v \<Rightarrow> v)"

section \<open>Strings\<close>

text \<open>\<^verbatim>\<open>str(n)\<close> for an integer: decimal digits, a minus sign for a negative number.\<close>

definition digit_char :: "nat \<Rightarrow> char" where
  "digit_char d = ''0123456789'' ! d"

fun str_nat :: "nat \<Rightarrow> string" where
  "str_nat n = (if n < 10 then [digit_char n] else str_nat (n div 10) @ [digit_char (n mod 10)])"

declare str_nat.simps [simp del]

definition py_str :: "int \<Rightarrow> string" where
  "py_str i = (if i < 0 then CHR ''-'' # str_nat (nat (- i)) else str_nat (nat i))"

text \<open>
  \<^verbatim>\<open>s.replace(old, new)\<close>: the occurrences of \<^verbatim>\<open>old\<close> are found from the left
  and do not overlap; the text put in is not searched again. An empty \<^verbatim>\<open>old\<close>
  matches before every character and at the end.
\<close>

function replace_from :: "string \<Rightarrow> string \<Rightarrow> string \<Rightarrow> string" where
  "replace_from old new [] = []"
| "replace_from old new (c # cs) =
     (if old \<noteq> [] \<and> prefix old (c # cs)
      then new @ replace_from old new (drop (length old) (c # cs))
      else c # replace_from old new cs)"
  by pat_completeness auto
termination
  by (relation "measure (\<lambda>(old, new, s). length s)") auto

definition py_replace :: "string \<Rightarrow> string \<Rightarrow> string \<Rightarrow> string" where
  "py_replace old new s =
     (if old = [] then new @ concat (map (\<lambda>c. c # new) s) else replace_from old new s)"

section \<open>The relay\<close>

definition mention_token :: "user \<Rightarrow> string" where
  "mention_token u = ''<@'' @ py_str (user_id u) @ ''>''"

text \<open>
  \<^verbatim>\<open>format_mentions(content, target_guild)\<close>, with the list \<^verbatim>\<open>message.mentions\<close>
  it closes over as first argument: one \<^verbatim>\<open>replace\<close> after the other, in the order of
  the list, each on the text the ones before it produced.
\<close>

fun format_mentions :: "user list \<Rightarrow> string \<Rightarrow> guild \<Rightarrow> string" where
  "format_mentions [] formatted_content target_guild = formatted_content"
| "format_mentions (u # us) formatted_content target_guild =
     (case get_member target_guild (user_id u) of
        None \<Rightarrow> format_mentions us formatted_content target_guild
      | Some member \<Rightarrow>
          format_mentions us
            (py_replace (mention_token u) (CHR ''@'' # display_name member) formatted_content)
            target_guild)"

text \<open>
  What a send does is the transport's business: it delivers, raises
  \<^verbatim>\<open>discord.HTTPException\<close>, or raises something else.
\<close>

datatype send_result = Delivered | HTTPException string | Raised py_error

type_synonym transport = "channel \<Rightarrow> string \<Rightarrow> send_result"

datatype effect = Send channel string | Sleep nat | LogError string

text \<open>
  \<^verbatim>\<open>relay_message\<close>: the effects of one task in order, and the exception that
  leaves it, if any. The sleep stands inside the \<^verbatim>\<open>try\<close>, after the send.
\<close>

definition relay_message :: "transport \<Rightarrow> channel \<Rightarrow> string \<Rightarrow> effect list \<times> py_error option" where
  "relay_message tr target_channel content =
     (case tr target_channel content of
        Delivered \<Rightarrow> ([Send target_channel content, Sleep 1], None)
      | HTTPException e \<Rightarrow>
          ([Send target_channel content, LogError (''Failed to relay message: '' @ e)], None)
      | Raised e \<Rightarrow> ([Send target_channel content], Some e))"

definition relay_text :: "message \<Rightarrow> guild \<Rightarrow> channel \<Rightarrow> string" where
  "relay_text m origin target_channel =
     ''['' @ guild_name origin @ ''] '' @ display_name (msg_author m) @ '': '' @
     format_mentions (msg_mentions m) (msg_content m) (channel_guild target_channel)"

text \<open>
  The list comprehension that builds \<^verbatim>\<open>relay_tasks\<close>. The coroutines start only in
  \<^verbatim>\<open>gather\<close>, so an \<^verbatim>\<open>AttributeError\<close> on a \<^verbatim>\<open>None\<close> channel leaves the
  comprehension before anything is sent.
\<close>

fun relay_tasks ::
  "message \<Rightarrow> guild \<Rightarrow> (int \<times> bool) list \<Rightarrow> (int \<times> channel option) list \<Rightarrow>
   py_error + (channel \<times> string) list" where
  "relay_tasks m origin flags [] = Inr []"
| "relay_tasks m origin flags ((target_guild_id, target_channel) # rest) =
     (if target_guild_id \<noteq> guild_id origin \<and> get_or flags target_guild_id False
      then (case target_channel of
              None \<Rightarrow> Inl AttributeError
            | Some c \<Rightarrow>
                (case relay_tasks m origin flags rest of
                   Inl e \<Rightarrow> Inl e
                 | Inr ts \<Rightarrow> Inr ((c, relay_text m origin c) # ts)))
      else relay_tasks m origin flags rest)"

text \<open>
  \<^verbatim>\<open>asyncio.gather\<close> without \<^verbatim>\<open>return_exceptions\<close>: every task runs, none is
  cancelled by another's failure, and the caller gets the first exception raised. The
  tasks' effects are kept apart, one list per task, since their interleaving is the
  scheduler's; the first exception is taken in task order.
\<close>

definition gather :: "transport \<Rightarrow> (channel \<times> string) list \<Rightarrow> effect list list \<times> py_error option" where
  "gather tr tasks =
     (let rs = map (\<lambda>(c, content). relay_message tr c content) tasks
      in (map fst rs, case List.map_filter snd rs of [] \<Rightarrow> None | e # _ \<Rightarrow> Some e))"

text \<open>
  The part of \<^verbatim>\<open>on_message\<close> after the commands: the settings it leaves, the effects
  of each relay task, and the exception that leaves the handler, if any. An empty group
  id is false for \<^verbatim>\<open>if group_id and ...\<close>.
\<close>

definition handle ::
  "transport \<Rightarrow> settings \<Rightarrow> message \<Rightarrow> settings \<times> effect list list \<times> py_error option" where
  "handle tr st m =
     (case msg_guild m of
        None \<Rightarrow> (st, [], Some AttributeError)
      | Some g \<Rightarrow>
          (case map_of (server_groups st) (guild_id g) of
             None \<Rightarrow> (st, [], None)
           | Some group_id \<Rightarrow>
               (if group_id = [] then (st, [], None)
                else case map_of (group_mappings st) group_id of
                  None \<Rightarrow> (st, [], None)
                | Some bindings \<Rightarrow>
                    (case map_of bindings (guild_id g) of
                       None \<Rightarrow> (st, [], None)
                     | Some origin_channel \<Rightarrow>
                         (case map_of (relay_enabled st) group_id of
                            None \<Rightarrow> (st, [], Some KeyError)
                          | Some flags \<Rightarrow>
                              (if \<not> get_or flags (guild_id g) False then (st, [], None)
                               else case origin_channel of
                                 None \<Rightarrow> (st, [], Some AttributeError)
                               | Some oc \<Rightarrow>
                                   (if channel_id (msg_channel m) \<noteq> channel_id oc
                                    then (st, [], None)
                                    else case relay_tasks m g flags bindings of
                                      Inl e \<Rightarrow> (st, [], Some e)
                                    | Inr tasks \<Rightarrow>
                                        (case gather tr tasks of
                                           (traces, err) \<Rightarrow> (st, traces, err)))))))))"

text \<open>
  \<^verbatim>\<open>on_message\<close>. \<^verbatim>\<open>bot.process_commands\<close> belongs to the command framework and is
  a parameter: it may change the settings (a command posted in the channel runs before
  the relay looks at the tables). \<^verbatim>\<open>message.author == bot.user\<close> compares ids.
\<close>

definition on_message ::
  "(message \<Rightarrow> settings \<Rightarrow> settings) \<Rightarrow> transport \<Rightarrow> user \<Rightarrow> settings \<Rightarrow> message \<Rightarrow>
   settings \<times> effect list list \<times> py_error option" where
  "on_message process_commands tr bot_user st m =
     (if user_id (msg_author m) = user_id bot_user then (st, [], None)
      else handle tr (process_commands m st) m)"

section \<open>Reading the tables\<close>

definition group_of :: "settings \<Rightarrow> int \<Rightarrow> string option" where
  "group_of st server = map_of (server_groups st) server"

definition bindings_of :: "settings \<Rightarrow> string \<Rightarrow> (int \<times> channel option) list" where
  "bindings_of st g = get_or (group_mappings st) g []"

definition binding :: "settings \<Rightarrow> string \<Rightarrow> int \<Rightarrow> channel option option" where
  "binding st g server = map_of (bindings_of st g) server"

definition enabled :: "settings \<Rightarrow> string \<Rightarrow> int \<Rightarrow> bool" where
  "enabled st g server = get_or (get_or (relay_enabled st) g []) server False"

text \<open>The target set of a message from server \<open>origin\<close> in group \<open>g\<close>.\<close>

definition targets :: "settings \<Rightarrow> string \<Rightarrow> int \<Rightarrow> (int \<times> channel option) list" where
  "targets st g origin = filter (\<lambda>(s, c). s \<noteq> origin \<and> enabled st g s) (bindings_of st g)"

definition sends :: "effect list \<Rightarrow> (channel \<times> string) list" where
  "sends es = List.map_filter (\<lambda>e. case e of Send c t \<Rightarrow> Some (c, t) | _ \<Rightarrow> None) es"

definition pauses :: "effect list \<Rightarrow> nat list" where
  "pauses es = List.map_filter (\<lambda>e. case e of Sleep n \<Rightarrow> Some n | _ \<Rightarrow> None) es"

section \<open>Persistence\<close>

text \<open>
  \<^verbatim>\<open>int(s)\<close> for a string: white space around the number is dropped, a sign may come
  first, and the digits may be grouped by single underscores. The white space is the ASCII
  part of what Python strips. \<^verbatim>\<open>None\<close> stands for \<^verbatim>\<open>ValueError\<close>.
\<close>

definition digit_val :: "char \<Rightarrow> nat option" where
  "digit_val = map_of
     [(CHR ''0'', 0), (CHR ''1'', 1), (CHR ''2'', 2), (CHR ''3'', 3), (CHR ''4'', 4),
      (CHR ''5'', 5), (CHR ''6'', 6), (CHR ''7'', 7), (CHR ''8'', 8), (CHR ''9'', 9)]"

definition is_space :: "char \<Rightarrow> bool" where
  "is_space c \<longleftrightarrow>
     c \<in> set [CHR '' '', CHR 0x09, CHR 0x0A, CHR 0x0B, CHR 0x0C, CHR 0x0D,
               CHR 0x1C, CHR 0x1D, CHR 0x1E, CHR 0x1F]"

definition strip :: "string \<Rightarrow> string" where
  "strip s = rev (dropWhile is_space (rev (dropWhile is_space s)))"

fun int_digits :: "nat \<Rightarrow> string \<Rightarrow> nat option" where
  "int_digits acc [] = Some acc"
| "int_digits acc [c] = (case digit_val c of None \<Rightarrow> None | Some d \<Rightarrow> Some (10 * acc + d))"
| "int_digits acc (c # c' # cs) =
     (if c = CHR ''_''
      then (case digit_val c' of None \<Rightarrow> None | Some d \<Rightarrow> int_digits (10 * acc + d) cs)
      else (case digit_val c of None \<Rightarrow> None | Some d \<Rightarrow> int_digits (10 * acc + d) (c' # cs)))"

definition py_nat :: "string \<Rightarrow> nat option" where
  "py_nat s =
     (case s of
        [] \<Rightarrow> None
      | c # cs \<Rightarrow> (case digit_val c of None \<Rightarrow> None | Some d \<Rightarrow> int_digits d cs))"

definition py_int :: "string \<Rightarrow> int option" where
  "py_int s =
     (case strip s of
        [] \<Rightarrow> None
      | c # cs \<Rightarrow>
          (if c = CHR ''-'' then map_option (\<lambda>n. - int n) (py_nat cs)
           else if c = CHR ''+'' then map_option int (py_nat cs)
           else map_option int (py_nat (c # cs))))"

text \<open>
  The settings document, as \<^verbatim>\<open>json.dump\<close> writes it and \<^verbatim>\<open>json.load\<close> returns it:
  three objects under three keys, server ids as strings (JSON keys are strings), channel
  ids as numbers. A key that is missing from the document is \<^verbatim>\<open>None\<close>, and a server
  key is any string, so that a document the bot did not write can be loaded too.
\<close>

record document =
  doc_group_mappings :: "(string \<times> (string \<times> int) list) list option"
  doc_relay_enabled :: "(string \<times> (string \<times> bool) list) list option"
  doc_server_groups :: "(string \<times> string) list option"

text \<open>
  The file: absent, not readable, not JSON (cut short by a failed write, say), or a
  document. And what the disk does at the next write: \<^verbatim>\<open>open\<close> fails and the file
  stays, or \<^verbatim>\<open>open\<close> has emptied the file and the write fails, or the write succeeds.
\<close>

datatype file_content = Missing | Unreadable | Corrupt | Doc document

datatype disk = WriteOk | OpenFails | WriteFails

datatype console_line = Printed string | ErrorLoading py_error

record ctx =
  ctx_guild :: guild
  ctx_channel :: channel

text \<open>
  Everything a command can touch: the tables, the settings file, the console, and the
  replies sent with \<^verbatim>\<open>ctx.send\<close>.
\<close>

record world =
  mem :: settings
  settings_file :: file_content
  console :: "console_line list"
  replies :: "(channel \<times> string) list"

text \<open>A dict comprehension: a later pair with a key seen before replaces the value in place.\<close>

definition dict_of :: "('k \<times> 'v) list \<Rightarrow> ('k \<times> 'v) list" where
  "dict_of kvs = foldl (\<lambda>d (k, v). AList.update k v d) [] kvs"

text \<open>\<^verbatim>\<open>bot.get_channel(cid)\<close> looks the id up in the client's cache.\<close>

definition get_channel :: "channel list \<Rightarrow> int \<Rightarrow> channel option" where
  "get_channel cache cid = find (\<lambda>c. channel_id c = cid) cache"

fun int_keys :: "(string \<times> 'v) list \<Rightarrow> py_error + (int \<times> 'v) list" where
  "int_keys [] = Inr []"
| "int_keys ((gid, v) # rest) =
     (case py_int gid of
        None \<Rightarrow> Inl ValueError
      | Some n \<Rightarrow> (case int_keys rest of Inl e \<Rightarrow> Inl e | Inr xs \<Rightarrow> Inr ((n, v) # xs)))"

fun load_groups ::
  "('a \<Rightarrow> 'b) \<Rightarrow> (string \<times> (string \<times> 'a) list) list \<Rightarrow> py_error + (string \<times> (int \<times> 'b) list) list" where
  "load_groups f [] = Inr []"
| "load_groups f ((k, v) # rest) =
     (case int_keys v of
        Inl e \<Rightarrow> Inl e
      | Inr xs \<Rightarrow>
          (case load_groups f rest of
             Inl e \<Rightarrow> Inl e
           | Inr ys \<Rightarrow> Inr ((k, dict_of (map (\<lambda>(gid, x). (gid, f x)) xs)) # ys)))"

definition load_failed :: "py_error \<Rightarrow> world \<Rightarrow> world" where
  "load_failed e w = w\<lparr>console := console w @ [ErrorLoading e]\<rparr>"

text \<open>
  \<^verbatim>\<open>load_settings\<close>. The three globals are assigned one after the other inside the
  \<^verbatim>\<open>try\<close>, so an exception raised for the second or third table leaves the tables
  before it already replaced.
\<close>

definition load_settings :: "channel list \<Rightarrow> world \<Rightarrow> world" where
  "load_settings cache w =
     (case settings_file w of
        Missing \<Rightarrow>
          w\<lparr>console := console w @ [Printed ''Settings file not found. Starting with empty settings.'']\<rparr>
      | Unreadable \<Rightarrow> load_failed OSError w
      | Corrupt \<Rightarrow> load_failed JSONDecodeError w
      | Doc data \<Rightarrow>
          (case doc_group_mappings data of
             None \<Rightarrow> load_failed KeyError w
           | Some gm \<Rightarrow>
               (case load_groups (get_channel cache) gm of
                  Inl e \<Rightarrow> load_failed e w
                | Inr gm' \<Rightarrow>
                    (let w1 = w\<lparr>mem := (mem w)\<lparr>group_mappings := dict_of gm'\<rparr>\<rparr>
                     in case doc_relay_enabled data of
                       None \<Rightarrow> load_failed KeyError w1
                     | Some re \<Rightarrow>
                         (case load_groups (\<lambda>status. status) re of
                            Inl e \<Rightarrow> load_failed e w1
                          | Inr re' \<Rightarrow>
                              (let w2 = w1\<lparr>mem := (mem w1)\<lparr>relay_enabled := dict_of re'\<rparr>\<rparr>
                               in case doc_server_groups data of
                                 None \<Rightarrow> load_failed KeyError w2
                               | Some sg \<Rightarrow>
                                   (case int_keys sg of
                                      Inl e \<Rightarrow> load_failed e w2
                                    | Inr sg' \<Rightarrow>
                                        w2\<lparr>mem := (mem w2)\<lparr>server_groups := dict_of sg'\<rparr>,
                                           console := console w2 @
                                             [Printed ''Settings loaded successfully.'']\<rparr>)))))))"

fun channel_ids :: "(int \<times> channel option) list \<Rightarrow> py_error + (int \<times> int) list" where
  "channel_ids [] = Inr []"
| "channel_ids ((gid, channel) # rest) =
     (case channel of
        None \<Rightarrow> Inl AttributeError
      | Some c \<Rightarrow>
          (case channel_ids rest of Inl e \<Rightarrow> Inl e | Inr xs \<Rightarrow> Inr ((gid, channel_id c) # xs)))"

fun dump_mappings ::
  "(string \<times> (int \<times> channel option) list) list \<Rightarrow> py_error + (string \<times> (int \<times> int) list) list" where
  "dump_mappings [] = Inr []"
| "dump_mappings ((k, v) # rest) =
     (case channel_ids v of
        Inl e \<Rightarrow> Inl e
      | Inr xs \<Rightarrow>
          (case dump_mappings rest of Inl e \<Rightarrow> Inl e | Inr ys \<Rightarrow> Inr ((k, dict_of xs) # ys)))"

text \<open>\<^verbatim>\<open>json.dump\<close> writes an integer key as its decimal string.\<close>

definition str_keys :: "(int \<times> 'v) list \<Rightarrow> (string \<times> 'v) list" where
  "str_keys d = map (\<lambda>(k, v). (py_str k, v)) d"

definition dump_groups :: "(string \<times> (int \<times> 'v) list) list \<Rightarrow> (string \<times> (string \<times> 'v) list) list" where
  "dump_groups d = map (\<lambda>(k, v). (k, str_keys v)) d"

text \<open>
  \<^verbatim>\<open>save_settings\<close> has no \<^verbatim>\<open>try\<close>: an exception leaves it to its caller. The
  document is built before the file is opened.
\<close>

definition save_settings :: "disk \<Rightarrow> world \<Rightarrow> world \<times> py_error option" where
  "save_settings dk w =
     (case dump_mappings (group_mappings (mem w)) of
        Inl e \<Rightarrow> (w, Some e)
      | Inr gm \<Rightarrow>
          (let data = \<lparr>doc_group_mappings = Some (dump_groups (dict_of gm)),
                       doc_relay_enabled =
                         Some (dump_groups (dict_of (map (\<lambda>(k, v). (k, dict_of v)) (relay_enabled (mem w))))),
                       doc_server_groups = Some (str_keys (server_groups (mem w)))\<rparr>
           in case dk of
             OpenFails \<Rightarrow> (w, Some OSError)
           | WriteFails \<Rightarrow> (w\<lparr>settings_file := Corrupt\<rparr>, Some OSError)
           | WriteOk \<Rightarrow>
               (w\<lparr>settings_file := Doc data,
                   console := console w @ [Printed ''Settings saved successfully.'']\<rparr>, None)))"

section \<open>Commands\<close>

text \<open>
  The bodies of the commands, as they run once the framework has checked the
  administrator permission. Each returns the world it leaves and the exception that
  leaves it, if any; when \<^verbatim>\<open>save_settings\<close> raises, the reply after it is not sent.
\<close>

definition send_reply :: "ctx \<Rightarrow> string \<Rightarrow> world \<Rightarrow> world" where
  "send_reply c reply w = w\<lparr>replies := replies w @ [(ctx_channel c, reply)]\<rparr>"

definition set_group :: "disk \<Rightarrow> ctx \<Rightarrow> string \<Rightarrow> world \<Rightarrow> world \<times> py_error option" where
  "set_group dk c group_id w =
     (let w1 = w\<lparr>mem := (mem w)\<lparr>server_groups :=
                 AList.update (guild_id (ctx_guild c)) group_id (server_groups (mem w))\<rparr>\<rparr>
      in case save_settings dk w1 of
        (w2, Some e) \<Rightarrow> (w2, Some e)
      | (w2, None) \<Rightarrow>
          (send_reply c (''Group ID set to '' @ [CHR 0x27] @ group_id @ [CHR 0x27] @
             '' for this server. Use `/setsharedchannel` to configure a shared channel for this group.'') w2,
           None))"

definition not_grouped_text :: string where
  "not_grouped_text = ''Please set a group ID for this server first using `/setgroup <group_id>`.''"

definition set_shared_channel :: "disk \<Rightarrow> ctx \<Rightarrow> channel \<Rightarrow> world \<Rightarrow> world \<times> py_error option" where
  "set_shared_channel dk c channel w =
     (case map_of (server_groups (mem w)) (guild_id (ctx_guild c)) of
        None \<Rightarrow> (send_reply c not_grouped_text w, None)
      | Some group_id \<Rightarrow>
          (if group_id = [] then (send_reply c not_grouped_text w, None)
           else
             let st = mem w;
                 st1 = (if map_of (group_mappings st) group_id = None
                        then st\<lparr>group_mappings := AList.update group_id [] (group_mappings st),
                                relay_enabled := AList.update group_id [] (relay_enabled st)\<rparr>
                        else st)
             in case map_of (group_mappings st1) group_id of
               None \<Rightarrow> (w\<lparr>mem := st1\<rparr>, Some KeyError)
             | Some bindings \<Rightarrow>
                 (let st2 = st1\<lparr>group_mappings :=
                              AList.update group_id
                                (AList.update (guild_id (ctx_guild c)) (Some channel) bindings)
                                (group_mappings st1)\<rparr>
                  in case map_of (relay_enabled st2) group_id of
                    None \<Rightarrow> (w\<lparr>mem := st2\<rparr>, Some KeyError)
                  | Some flags \<Rightarrow>
                      (let st3 = st2\<lparr>relay_enabled :=
                                   AList.update group_id
                                     (AList.update (guild_id (ctx_guild c)) True flags)
                                     (relay_enabled st2)\<rparr>
                       in case save_settings dk (w\<lparr>mem := st3\<rparr>) of
                         (w2, Some e) \<Rightarrow> (w2, Some e)
                       | (w2, None) \<Rightarrow>
                           (send_reply c (''Shared channel set to <#'' @ py_str (channel_id channel) @
                              ''> for group '' @ [CHR 0x27] @ group_id @ [CHR 0x27] @
                              '' in this server.'') w2, None)))))"

definition no_binding_text :: string where
  "no_binding_text =
     ''This server is not set up in a group or shared channel. Use `/setgroup` and `/setsharedchannel` to configure it first.''"

text \<open>
  \<^verbatim>\<open>enable_relay\<close> and \<^verbatim>\<open>disable_relay\<close> differ in the flag they store and in one
  word of the reply; \<^verbatim>\<open>set_relay\<close> is their common body.
\<close>

definition set_relay :: "bool \<Rightarrow> disk \<Rightarrow> ctx \<Rightarrow> world \<Rightarrow> world \<times> py_error option" where
  "set_relay flag dk c w =
     (case map_of (server_groups (mem w)) (guild_id (ctx_guild c)) of
        None \<Rightarrow> (send_reply c no_binding_text w, None)
      | Some group_id \<Rightarrow>
          (if group_id = [] then (send_reply c no_binding_text w, None)
           else case map_of (relay_enabled (mem w)) group_id of
             None \<Rightarrow> (send_reply c no_binding_text w, None)
           | Some flags \<Rightarrow>
               (if map_of flags (guild_id (ctx_guild c)) = None
                then (send_reply c no_binding_text w, None)
                else
                  let w1 = w\<lparr>mem := (mem w)\<lparr>relay_enabled :=
                             AList.update group_id
                               (AList.update (guild_id (ctx_guild c)) flag flags)
                               (relay_enabled (mem w))\<rparr>\<rparr>
                  in case save_settings dk w1 of
                    (w2, Some e) \<Rightarrow> (w2, Some e)
                  | (w2, None) \<Rightarrow>
                      (send_reply c (''Message relaying has been '' @
                         (if flag then ''enabled'' else ''disabled'') @
                         '' for group '' @ [CHR 0x27] @ group_id @ [CHR 0x27] @ ''.'') w2, None))))"

definition enable_relay :: "disk \<Rightarrow> ctx \<Rightarrow> world \<Rightarrow> world \<times> py_error option" where
  "enable_relay = set_relay True"

definition disable_relay :: "disk \<Rightarrow> ctx \<Rightarrow> world \<Rightarrow> world \<times> py_error option" where
  "disable_relay = set_relay False"

section \<open>The shape of the tables\<close>

text \<open>
  What the commands and a load of a saved document keep true of the tables: the two
  binding tables have the same groups and, under each group, the same servers in the same
  order; no group id is empty; no key stands twice (the tables are dicts).
\<close>

definition aligned :: "string \<times> (int \<times> channel option) list \<Rightarrow> string \<times> (int \<times> bool) list \<Rightarrow> bool" where
  "aligned b f \<longleftrightarrow>
     fst b = fst f \<and> fst b \<noteq> [] \<and> map fst (snd b) = map fst (snd f) \<and> distinct (map fst (snd b))"

definition wf_settings :: "settings \<Rightarrow> bool" where
  "wf_settings st \<longleftrightarrow>
     list_all2 aligned (group_mappings st) (relay_enabled st) \<and>
     distinct (map fst (group_mappings st)) \<and>
     distinct (map fst (server_groups st))"

definition empty_settings :: settings where
  "empty_settings = \<lparr>group_mappings = [], relay_enabled = [], server_groups = []\<rparr>"

text \<open>
  The tables the bot can hold: empty at the start, then whatever the commands leave, with
  any disk behaviour, and what a restart loads from a file that a save has written.
\<close>

inductive reachable :: "settings \<Rightarrow> bool" where
  start: "reachable empty_settings"
| group: "reachable (mem w) \<Longrightarrow> reachable (mem (fst (set_group dk c g w)))"
| bind: "reachable (mem w) \<Longrightarrow> reachable (mem (fst (set_shared_channel dk c ch w)))"
| enable: "reachable (mem w) \<Longrightarrow> reachable (mem (fst (enable_relay dk c w)))"
| disable: "reachable (mem w) \<Longrightarrow> reachable (mem (fst (disable_relay dk c w)))"
| restart: "reachable (mem w) \<Longrightarrow> save_settings WriteOk w = (w1, None) \<Longrightarrow>
            settings_file v = settings_file w1 \<Longrightarrow> reachable (mem (load_settings cache v))"

text \<open>Two notions for the proofs: a string of digits, and the channel ids of a list of bindings.\<close>

definition all_digits :: "string \<Rightarrow> bool" where
  "all_digits s \<longleftrightarrow> (\<forall>c \<in> set s. digit_val c \<noteq> None)"

definition binding_ids :: "(int \<times> channel option) list \<Rightarrow> (int \<times> int) list" where
  "binding_ids v = map (\<lambda>(gid, ch). (gid, channel_id (the ch))) v"

section \<open>A body as texts and mentions\<close>







section \<open>A small deployment\<close>

text \<open>
  Group alpha with three servers, each bound to one channel; user 123 is Bob on server B
  and unknown on server C.
\<close>

definition bob :: user where
  "bob = \<lparr>user_id = 123, display_name = ''Bob''\<rparr>"

definition xavier :: user where
  "xavier = \<lparr>user_id = 7, display_name = ''X''\<rparr>"

definition the_bot :: user where
  "the_bot = \<lparr>user_id = 999, display_name = ''Canary''\<rparr>"

definition guild_a :: guild where
  "guild_a = \<lparr>guild_id = 1, guild_name = ''GuildA'', guild_members = [xavier]\<rparr>"

definition guild_b :: guild where
  "guild_b = \<lparr>guild_id = 2, guild_name = ''GuildB'', guild_members = [bob]\<rparr>"

definition guild_c :: guild where
  "guild_c = \<lparr>guild_id = 3, guild_name = ''GuildC'', guild_members = []\<rparr>"

definition a1 :: channel where
  "a1 = \<lparr>channel_id = 11, channel_guild = guild_a\<rparr>"

definition b1 :: channel where
  "b1 = \<lparr>channel_id = 21, channel_guild = guild_b\<rparr>"

definition c1 :: channel where
  "c1 = \<lparr>channel_id = 31, channel_guild = guild_c\<rparr>"

definition alpha :: settings where
  "alpha =
     \<lparr>group_mappings = [(''alpha'', [(1, Some a1), (2, Some b1), (3, Some c1)])],
      relay_enabled = [(''alpha'', [(1, True), (2, True), (3, True)])],
      server_groups = [(1, ''alpha''), (2, ''alpha''), (3, ''alpha'')]\<rparr>"

definition hello :: message where
  "hello = \<lparr>msg_author = xavier, msg_guild = Some guild_a, msg_channel = a1,
            msg_content = ''hello <@123>'', msg_mentions = [bob]\<rparr>"

text \<open>The same group after a load in which the channel of server B did not resolve.\<close>

definition alpha_b_unresolved :: settings where
  "alpha_b_unresolved =
     alpha\<lparr>group_mappings := [(''alpha'', [(1, Some a1), (2, None), (3, Some c1)])]\<rparr>"

definition all_delivered :: transport where
  "all_delivered c t = Delivered"

definition b1_fails :: transport where
  "b1_fails c t = (if channel_id c = 21 then HTTPException ''503'' else Delivered)"

text \<open>
  Server D is in no group. The world in which the commands below run starts with the
  tables of group alpha and no settings file.
\<close>

definition guild_d :: guild where
  "guild_d = \<lparr>guild_id = 4, guild_name = ''GuildD'', guild_members = []\<rparr>"

definition d1 :: channel where
  "d1 = \<lparr>channel_id = 41, channel_guild = guild_d\<rparr>"

definition ctx_b :: ctx where
  "ctx_b = \<lparr>ctx_guild = guild_b, ctx_channel = b1\<rparr>"

definition ctx_d :: ctx where
  "ctx_d = \<lparr>ctx_guild = guild_d, ctx_channel = d1\<rparr>"

definition world_alpha :: world where
  "world_alpha = \<lparr>mem = alpha, settings_file = Missing, console = [], replies = []\<rparr>"

text \<open>
  The document a save of group alpha writes, the world after a restart with that file, and
  a document whose second table is missing.
\<close>

definition alpha_document :: document where
  "alpha_document =
     \<lparr>doc_group_mappings = Some [(''alpha'', [(''1'', 11), (''2'', 21), (''3'', 31)])],
      doc_relay_enabled = Some [(''alpha'', [(''1'', True), (''2'', True), (''3'', True)])],
      doc_server_groups = Some [(''1'', ''alpha''), (''2'', ''alpha''), (''3'', ''alpha'')]\<rparr>"

definition restarted :: world where
  "restarted = \<lparr>mem = empty_settings, settings_file = Doc alpha_document, console = [], replies = []\<rparr>"






section \<open>Properties of the relay\<close>

lemmas deployment_defs = alpha_def alpha_b_unresolved_def hello_def a1_def b1_def c1_def
  guild_a_def guild_b_def guild_c_def bob_def xavier_def the_bot_def all_delivered_def b1_fails_def
lemmas table_defs = group_of_def binding_def bindings_of_def enabled_def get_or_def targets_def

lemma sends_relay_message: "sends (fst (relay_message tr c t)) = [(c, t)]"
  by (simp add: relay_message_def sends_def List.map_filter_def split: send_result.splits)

lemma relay_tasks_resolved:
  "\<forall>(s, c) \<in> set bs. s \<noteq> guild_id og \<and> get_or flags s False \<longrightarrow> c \<noteq> None \<Longrightarrow>
   relay_tasks m og flags bs =
     Inr (map (\<lambda>(s, c). (the c, relay_text m og (the c)))
            (filter (\<lambda>(s, c). s \<noteq> guild_id og \<and> get_or flags s False) bs))"
proof (induction bs)
  case Nil
  then show ?case by simp
next
  case (Cons b bs)
  obtain s c where b: "b = (s, c)" by (cases b)
  show ?case using Cons by (cases c) (simp_all add: b)
qed

lemma gather_traces: "fst (gather tr tasks) = map (\<lambda>(c, t). fst (relay_message tr c t)) tasks"
  by (simp add: gather_def Let_def case_prod_beta comp_def)

lemma gather_sends: "map sends (fst (gather tr tasks)) = map (\<lambda>task. [task]) tasks"
  by (simp add: gather_traces comp_def case_prod_beta sends_relay_message)


lemma wf_group:
  assumes "wf_settings st" "map_of (group_mappings st) g = Some bs"
  shows "g \<noteq> [] \<and> distinct (map fst bs) \<and>
         (\<exists>fs. map_of (relay_enabled st) g = Some fs \<and> map fst fs = map fst bs)"
proof -
  have "list_all2 aligned gm re \<Longrightarrow> map_of gm g = Some bs \<Longrightarrow>
        g \<noteq> [] \<and> distinct (map fst bs) \<and> (\<exists>fs. map_of re g = Some fs \<and> map fst fs = map fst bs)"
    for gm re
    by (induction gm re rule: list_all2_induct) (auto simp: aligned_def split: if_splits)
  with assms show ?thesis unfolding wf_settings_def by blast
qed

lemma handle_eligible:
  assumes wf: "wf_settings st"
    and og: "msg_guild m = Some og"
    and g: "group_of st (guild_id og) = Some g"
    and b: "binding st g (guild_id og) = Some (Some oc)"
    and en: "enabled st g (guild_id og)"
    and ch: "channel_id (msg_channel m) = channel_id oc"
  shows "handle tr st m =
          (case relay_tasks m og (get_or (relay_enabled st) g []) (bindings_of st g) of
             Inl e \<Rightarrow> (st, [], Some e)
           | Inr tasks \<Rightarrow> (st, gather tr tasks))"
proof -
  from b obtain bs where bs: "map_of (group_mappings st) g = Some bs"
    by (auto simp: binding_def bindings_of_def get_or_def split: option.splits)
  from wf_group [OF wf bs] obtain fs where ne: "g \<noteq> []" and fs: "map_of (relay_enabled st) g = Some fs"
    by blast
  from b bs have ob: "map_of bs (guild_id og) = Some (Some oc)"
    by (simp add: binding_def bindings_of_def get_or_def)
  from en fs have en': "get_or fs (guild_id og) False"
    by (simp add: enabled_def get_or_def)
  from g have g': "map_of (server_groups st) (guild_id og) = Some g"
    by (simp add: group_of_def)
  have bo: "bindings_of st g = bs" and fo: "get_or (relay_enabled st) g [] = fs"
    using bs fs by (simp_all add: bindings_of_def get_or_def)
  show ?thesis
    by (simp add: handle_def og g' ne bs ob fs en' ch bo fo split: sum.splits prod.splits)
qed

lemma handle_fans_out:
  assumes wf: "wf_settings st"
    and og: "msg_guild m = Some og"
    and g: "group_of st (guild_id og) = Some g"
    and b: "binding st g (guild_id og) = Some (Some oc)"
    and en: "enabled st g (guild_id og)"
    and ch: "channel_id (msg_channel m) = channel_id oc"
    and res: "\<forall>(s, c) \<in> set (targets st g (guild_id og)). c \<noteq> None"
  shows "handle tr st m =
           (st, gather tr (map (\<lambda>(s, c). (the c, relay_text m og (the c))) (targets st g (guild_id og))))"
proof -
  have "relay_tasks m og (get_or (relay_enabled st) g []) (bindings_of st g) =
        Inr (map (\<lambda>(s, c). (the c, relay_text m og (the c))) (targets st g (guild_id og)))"
    unfolding targets_def enabled_def
    by (rule relay_tasks_resolved) (use res in \<open>auto simp: targets_def enabled_def\<close>)
  then show ?thesis
    by (simp add: handle_eligible [OF wf og g b en ch])
qed

lemma targets_distinct:
  assumes "wf_settings st"
  shows "distinct (map fst (targets st g origin))"
proof (cases "map_of (group_mappings st) g")
  case None
  then show ?thesis by (simp add: targets_def bindings_of_def get_or_def)
next
  case (Some bs)
  with wf_group [OF assms Some] show ?thesis
    by (simp add: targets_def bindings_of_def get_or_def distinct_map_filter)
qed

lemma wf_alpha: "wf_settings alpha"
  by (simp add: wf_settings_def aligned_def alpha_def)









text \<open>
  Where the origin's binding is enabled, its channel is the one the message was posted in
  and every target holds a resolved channel, each target gets one send, in the order of
  the bindings, with the text \<open>[origin server] author: body\<close>, the body rewritten for
  the guild of the target channel; no server is a target twice.
\<close>

lemma handle_relays_to_every_target:
  assumes wf: "wf_settings st"
    and og: "msg_guild m = Some og"
    and g: "group_of st (guild_id og) = Some g"
    and b: "binding st g (guild_id og) = Some (Some oc)"
    and en: "enabled st g (guild_id og)"
    and ch: "channel_id (msg_channel m) = channel_id oc"
    and res: "\<forall>(s, c) \<in> set (targets st g (guild_id og)). c \<noteq> None"
  shows "fst (handle tr st m) = st"
    and "map sends (fst (snd (handle tr st m))) =
           map (\<lambda>(s, c).
                  [(the c,
                    ''['' @ guild_name og @ ''] '' @ display_name (msg_author m) @ '': '' @
                    format_mentions (msg_mentions m) (msg_content m) (channel_guild (the c)))])
             (targets st g (guild_id og))"
    and "distinct (map fst (targets st g (guild_id og)))"
proof -
  note h = handle_fans_out [OF wf og g b en ch res, of tr]
  show "fst (handle tr st m) = st" by (simp add: h)
  show "map sends (fst (snd (handle tr st m))) =
           map (\<lambda>(s, c).
                  [(the c,
                    ''['' @ guild_name og @ ''] '' @ display_name (msg_author m) @ '': '' @
                    format_mentions (msg_mentions m) (msg_content m) (channel_guild (the c)))])
             (targets st g (guild_id og))"
    by (simp add: h gather_sends comp_def case_prod_beta relay_text_def)
  show "distinct (map fst (targets st g (guild_id og)))"
    by (rule targets_distinct [OF wf])
qed

text \<open>
  C1. Every other enabled binding of the group is to get one copy of a message posted in
  the origin's bound channel. Evaluated where the claim fails: in group alpha the channel
  of server B did not resolve at load time, so its binding holds \<^verbatim>\<open>None\<close>. A message
  posted in the bound channel of server A raises \<^verbatim>\<open>AttributeError\<close> while the tasks
  are built, and server C, whose binding is enabled and resolved, gets no copy.
\<close>

theorem unresolved_binding_stops_fan_out:
  "wf_settings alpha_b_unresolved \<and>
   msg_guild hello = Some guild_a \<and>
   group_of alpha_b_unresolved (guild_id guild_a) = Some ''alpha'' \<and>
   binding alpha_b_unresolved ''alpha'' (guild_id guild_a) = Some (Some a1) \<and>
   enabled alpha_b_unresolved ''alpha'' (guild_id guild_a) \<and>
   channel_id (msg_channel hello) = channel_id a1 \<and>
   binding alpha_b_unresolved ''alpha'' (guild_id guild_c) = Some (Some c1) \<and>
   enabled alpha_b_unresolved ''alpha'' (guild_id guild_c) \<and>
   handle all_delivered alpha_b_unresolved hello = (alpha_b_unresolved, [], Some AttributeError)"
  by (simp add: handle_def wf_settings_def aligned_def table_defs alpha_def alpha_b_unresolved_def
        hello_def guild_a_def guild_c_def a1_def)

text \<open>
  C2. A message from a server that has no group, or no binding in its group, or a binding
  that is not enabled, or that was posted in a channel other than the bound one, starts
  no relay task and leaves the settings as they are.
\<close>

theorem handle_ignores_ineligible:
  assumes "msg_guild m = Some og"
    and "group_of st (guild_id og) = None \<or>
         (\<exists>g. group_of st (guild_id og) = Some g \<and>
           (binding st g (guild_id og) = None \<or>
            \<not> enabled st g (guild_id og) \<or>
            (\<forall>oc. binding st g (guild_id og) = Some (Some oc) \<longrightarrow>
                  channel_id (msg_channel m) \<noteq> channel_id oc)))"
  shows "fst (handle tr st m) = st \<and> fst (snd (handle tr st m)) = []"
  using assms
  by (auto simp: handle_def table_defs split: option.splits)

theorem handle_ignores_ineligible_witness:
  "fst (handle all_delivered alpha (hello\<lparr>msg_channel := b1\<rparr>)) = alpha \<and>
   fst (snd (handle all_delivered alpha (hello\<lparr>msg_channel := b1\<rparr>))) = []"
  using handle_ignores_ineligible [of "hello\<lparr>msg_channel := b1\<rparr>" guild_a alpha all_delivered]
  by (simp add: deployment_defs table_defs)

text \<open>
  C4, as the code has it. After a send that succeeds the task sleeps one second and ends.
  After a send that raises \<^verbatim>\<open>HTTPException\<close> the task logs the error and ends
  without a pause: the sleep stands inside the \<^verbatim>\<open>try\<close>, behind the send.
\<close>

theorem relay_message_pause:
  "(tr c t = Delivered \<longrightarrow> fst (relay_message tr c t) = [Send c t, Sleep 1]) \<and>
   (\<forall>e. tr c t = HTTPException e \<longrightarrow>
      fst (relay_message tr c t) = [Send c t, LogError (''Failed to relay message: '' @ e)] \<and>
      pauses (fst (relay_message tr c t)) = [])"
  by (simp add: relay_message_def pauses_def List.map_filter_def)

theorem relay_message_pause_witness:
  "all_delivered b1 ''hi'' = Delivered \<and>
   fst (relay_message all_delivered b1 ''hi'') = [Send b1 ''hi'', Sleep 1] \<and>
   b1_fails b1 ''hi'' = HTTPException ''503'' \<and>
   fst (relay_message b1_fails b1 ''hi'') = [Send b1 ''hi'', LogError ''Failed to relay message: 503'']"
  using relay_message_pause [of all_delivered b1 "''hi''"] relay_message_pause [of b1_fails b1 "''hi''"]
  by (simp add: all_delivered_def b1_fails_def b1_def)

text \<open>C4 as stated asks for the pause after a failed send too; there is none.\<close>

theorem no_pause_after_failed_send:
  "b1_fails b1 ''hi'' = HTTPException ''503'' \<and>
   relay_message b1_fails b1 ''hi'' =
     ([Send b1 ''hi'', LogError ''Failed to relay message: 503''], None) \<and>
   pauses (fst (relay_message b1_fails b1 ''hi'')) = []"
  by (simp add: relay_message_def pauses_def List.map_filter_def b1_fails_def b1_def)



text \<open>
  C10. A message whose author is the bot itself is dropped at once: no command runs, no
  task is started, the settings stay as they are and the handler returns normally. Every
  relayed copy is such a message, so it is not relayed again.
\<close>

theorem on_message_ignores_own_messages:
  assumes "user_id (msg_author m) = user_id bot_user"
  shows "on_message process_commands tr bot_user st m = (st, [], None)"
  using assms by (simp add: on_message_def)

theorem on_message_ignores_own_messages_witness:
  "user_id (msg_author (hello\<lparr>msg_author := the_bot\<rparr>)) = user_id the_bot \<and>
   on_message (\<lambda>m st. empty_settings) all_delivered the_bot alpha (hello\<lparr>msg_author := the_bot\<rparr>)
     = (alpha, [], None)"
  using on_message_ignores_own_messages
    [of "hello\<lparr>msg_author := the_bot\<rparr>" the_bot "\<lambda>m st. empty_settings" all_delivered alpha]
  by simp

section \<open>Properties of the commands\<close>

lemma mem_save_settings: "mem (fst (save_settings dk w)) = mem w"
  by (simp add: save_settings_def Let_def split: sum.splits disk.splits)

lemma mem_send_reply: "mem (send_reply c r w) = mem w"
  by (simp add: send_reply_def)

lemma set_relay_no_binding:
  assumes wf: "wf_settings (mem w)"
    and nb: "\<forall>g. group_of (mem w) (guild_id (ctx_guild c)) = Some g \<longrightarrow>
                 binding (mem w) g (guild_id (ctx_guild c)) = None"
  shows "set_relay flag dk c w = (send_reply c no_binding_text w, None)"
proof (cases "map_of (server_groups (mem w)) (guild_id (ctx_guild c))")
  case None
  then show ?thesis by (simp add: set_relay_def)
next
  case (Some g)
  with nb have b: "binding (mem w) g (guild_id (ctx_guild c)) = None"
    by (simp add: group_of_def)
  show ?thesis
  proof (cases "map_of (relay_enabled (mem w)) g")
    case None
    with Some show ?thesis by (simp add: set_relay_def)
  next
    case fs: (Some fs)
    show ?thesis
    proof (cases "map_of (group_mappings (mem w)) g")
      case None
      have "list_all2 aligned gm re \<Longrightarrow> map_of gm g = None \<Longrightarrow> map_of re g = None" for gm re
        by (induction gm re rule: list_all2_induct) (auto simp: aligned_def)
      with wf None have "map_of (relay_enabled (mem w)) g = None"
        unfolding wf_settings_def by blast
      with fs show ?thesis by simp
    next
      case bs: (Some bs)
      from wf_group [OF wf bs] fs have k: "map fst fs = map fst bs" by simp
      from b bs have "map_of bs (guild_id (ctx_guild c)) = None"
        by (simp add: binding_def bindings_of_def get_or_def)
      then have "guild_id (ctx_guild c) \<notin> fst ` set bs" by (simp add: map_of_eq_None_iff)
      then have "guild_id (ctx_guild c) \<notin> fst ` set fs"
        using k by (metis set_map)
      then have "map_of fs (guild_id (ctx_guild c)) = None" by (simp add: map_of_eq_None_iff)
      with Some fs show ?thesis by (simp add: set_relay_def)
    qed
  qed
qed

lemma update_keys_same: "k \<in> fst ` set al \<Longrightarrow> map fst (AList.update k v al) = map fst al"
  by (induction al) auto

lemma set_relay_mem:
  "mem (fst (set_relay flag dk c w)) = mem w \<or>
   (\<exists>g fs. map_of (server_groups (mem w)) (guild_id (ctx_guild c)) = Some g \<and> g \<noteq> [] \<and>
      map_of (relay_enabled (mem w)) g = Some fs \<and>
      guild_id (ctx_guild c) \<in> fst ` set fs \<and>
      mem (fst (set_relay flag dk c w)) =
        (mem w)\<lparr>relay_enabled :=
           AList.update g (AList.update (guild_id (ctx_guild c)) flag fs) (relay_enabled (mem w))\<rparr>)"
proof -
  have s: "mem (fst (case save_settings dk w1 of (w2, Some e) \<Rightarrow> (w2, Some e)
                      | (w2, None) \<Rightarrow> (send_reply c r w2, None))) = mem w1" for w1 r
    using mem_save_settings [of dk w1]
    by (cases "save_settings dk w1") (auto simp: mem_send_reply split: option.splits)
  show ?thesis
    by (auto simp: set_relay_def Let_def s mem_send_reply map_of_eq_None_iff
          split: option.splits)
qed

lemma set_relay_bound:
  assumes wf: "wf_settings (mem w)"
    and g: "group_of (mem w) (guild_id (ctx_guild c)) = Some g"
    and b: "binding (mem w) g (guild_id (ctx_guild c)) = Some ch"
  shows "\<exists>fs. map_of (relay_enabled (mem w)) g = Some fs \<and>
           guild_id (ctx_guild c) \<in> fst ` set fs \<and>
           mem (fst (set_relay flag dk c w)) =
             (mem w)\<lparr>relay_enabled :=
                AList.update g (AList.update (guild_id (ctx_guild c)) flag fs) (relay_enabled (mem w))\<rparr>"
proof -
  from b obtain bs where bs: "map_of (group_mappings (mem w)) g = Some bs"
    and ob: "map_of bs (guild_id (ctx_guild c)) = Some ch"
    by (auto simp: binding_def bindings_of_def get_or_def split: option.splits)
  from wf_group [OF wf bs] obtain fs where ne: "g \<noteq> []"
    and fs: "map_of (relay_enabled (mem w)) g = Some fs" and k: "map fst fs = map fst bs"
    by blast
  from ob have "guild_id (ctx_guild c) \<in> fst ` set bs"
    by (metis map_of_eq_None_iff option.distinct(1))
  then have inn: "guild_id (ctx_guild c) \<in> fst ` set fs"
    using k by (metis set_map)
  then obtain v where some: "map_of fs (guild_id (ctx_guild c)) = Some v"
    by (metis map_of_eq_None_iff not_None_eq)
  from g have g': "map_of (server_groups (mem w)) (guild_id (ctx_guild c)) = Some g"
    by (simp add: group_of_def)
  have s: "mem (fst (case save_settings dk w1 of (w2, Some e) \<Rightarrow> (w2, Some e)
                      | (w2, None) \<Rightarrow> (send_reply c r w2, None))) = mem w1" for w1 r
    using mem_save_settings [of dk w1]
    by (cases "save_settings dk w1") (auto simp: mem_send_reply split: option.splits)
  have "mem (fst (set_relay flag dk c w)) =
             (mem w)\<lparr>relay_enabled :=
                AList.update g (AList.update (guild_id (ctx_guild c)) flag fs) (relay_enabled (mem w))\<rparr>"
    by (simp add: set_relay_def g' ne fs some Let_def s)
  with fs inn show ?thesis by blast
qed

lemma enabled_after_update:
  "enabled (st\<lparr>relay_enabled := AList.update g (AList.update s flag fs) (relay_enabled st)\<rparr>) g s = flag"
  by (simp add: enabled_def get_or_def update_conv')

lemma enabled_frame_update:
  assumes "map_of (relay_enabled st) g = Some fs" "\<not> (g' = g \<and> s' = s)"
  shows "enabled (st\<lparr>relay_enabled := AList.update g (AList.update s flag fs) (relay_enabled st)\<rparr>) g' s'
         = enabled st g' s'"
  using assms by (auto simp: enabled_def get_or_def update_conv')

lemma binding_relay_enabled_update [simp]:
  "binding (st\<lparr>relay_enabled := re\<rparr>) g s = binding st g s"
  by (simp add: binding_def bindings_of_def)

lemma set_relay_in_place:
  assumes wf: "wf_settings (mem w)"
    and g: "group_of (mem w) (guild_id (ctx_guild c)) = Some g"
    and b: "binding (mem w) g (guild_id (ctx_guild c)) = Some ch"
  shows "enabled (mem (fst (set_relay flag dk c w))) g (guild_id (ctx_guild c)) = flag"
    and "binding (mem (fst (set_relay flag dk c w))) g (guild_id (ctx_guild c)) = Some ch"
    and "map fst (relay_enabled (mem (fst (set_relay flag dk c w)))) = map fst (relay_enabled (mem w))"
    and "map fst (get_or (relay_enabled (mem (fst (set_relay flag dk c w)))) g []) =
         map fst (get_or (relay_enabled (mem w)) g [])"
proof -
  from set_relay_bound [OF wf g b, of flag dk] obtain fs where
    fs: "map_of (relay_enabled (mem w)) g = Some fs"
    and inn: "guild_id (ctx_guild c) \<in> fst ` set fs"
    and m: "mem (fst (set_relay flag dk c w)) =
             (mem w)\<lparr>relay_enabled :=
                AList.update g (AList.update (guild_id (ctx_guild c)) flag fs) (relay_enabled (mem w))\<rparr>"
    by blast
  from fs have gin: "g \<in> fst ` set (relay_enabled (mem w))"
    by (metis map_of_eq_None_iff option.distinct(1))
  show "enabled (mem (fst (set_relay flag dk c w))) g (guild_id (ctx_guild c)) = flag"
    by (simp add: m enabled_after_update)
  show "binding (mem (fst (set_relay flag dk c w))) g (guild_id (ctx_guild c)) = Some ch"
    by (simp add: m b)
  show "map fst (relay_enabled (mem (fst (set_relay flag dk c w)))) = map fst (relay_enabled (mem w))"
    by (simp add: m update_keys_same [OF gin])
  show "map fst (get_or (relay_enabled (mem (fst (set_relay flag dk c w)))) g []) =
         map fst (get_or (relay_enabled (mem w)) g [])"
    by (simp add: m get_or_def update_conv' fs update_keys_same [OF inn])
qed

text \<open>
  C8. Run for a server that has no binding in its current group, \<^verbatim>\<open>enable\<close> and
  \<^verbatim>\<open>disable\<close> reply with the guidance text and leave the tables, the settings file
  and the console as they are, whatever the disk would do: nothing is saved. Run for a
  server that has a binding, they set its flag to true, respectively false, where it
  stands: the keys of both levels of \<^verbatim>\<open>relay_enabled\<close> keep their order, and the
  bound channel stays.
\<close>

theorem enable_disable_need_binding:
  assumes wf: "wf_settings (mem w)"
  shows "((\<forall>g. group_of (mem w) (guild_id (ctx_guild c)) = Some g \<longrightarrow>
               binding (mem w) g (guild_id (ctx_guild c)) = None) \<longrightarrow>
            enable_relay dk c w =
              (w\<lparr>replies := replies w @ [(ctx_channel c, no_binding_text)]\<rparr>, None) \<and>
            disable_relay dk c w =
              (w\<lparr>replies := replies w @ [(ctx_channel c, no_binding_text)]\<rparr>, None)) \<and>
         (\<forall>g ch. group_of (mem w) (guild_id (ctx_guild c)) = Some g \<and>
                 binding (mem w) g (guild_id (ctx_guild c)) = Some ch \<longrightarrow>
            enabled (mem (fst (enable_relay dk c w))) g (guild_id (ctx_guild c)) \<and>
            \<not> enabled (mem (fst (disable_relay dk c w))) g (guild_id (ctx_guild c)) \<and>
            binding (mem (fst (enable_relay dk c w))) g (guild_id (ctx_guild c)) = Some ch \<and>
            binding (mem (fst (disable_relay dk c w))) g (guild_id (ctx_guild c)) = Some ch \<and>
            map fst (relay_enabled (mem (fst (enable_relay dk c w)))) = map fst (relay_enabled (mem w)) \<and>
            map fst (relay_enabled (mem (fst (disable_relay dk c w)))) = map fst (relay_enabled (mem w)) \<and>
            map fst (get_or (relay_enabled (mem (fst (enable_relay dk c w)))) g []) =
              map fst (get_or (relay_enabled (mem w)) g []) \<and>
            map fst (get_or (relay_enabled (mem (fst (disable_relay dk c w)))) g []) =
              map fst (get_or (relay_enabled (mem w)) g []))"
  using set_relay_no_binding [OF wf, of c _ dk]
        set_relay_in_place [OF wf, of c _ _ True dk]
        set_relay_in_place [OF wf, of c _ _ False dk]
  unfolding enable_relay_def disable_relay_def send_reply_def
  by blast

lemmas world_defs = world_alpha_def ctx_b_def ctx_d_def guild_d_def d1_def

theorem enable_disable_need_binding_witness:
  "wf_settings (mem world_alpha) \<and>
   enable_relay OpenFails ctx_d world_alpha =
     (world_alpha\<lparr>replies := [(d1, no_binding_text)]\<rparr>, None) \<and>
   disable_relay OpenFails ctx_d world_alpha =
     (world_alpha\<lparr>replies := [(d1, no_binding_text)]\<rparr>, None) \<and>
   enabled (mem (fst (enable_relay WriteOk ctx_b world_alpha))) ''alpha'' 2 \<and>
   \<not> enabled (mem (fst (disable_relay WriteOk ctx_b world_alpha))) ''alpha'' 2 \<and>
   binding (mem (fst (disable_relay WriteOk ctx_b world_alpha))) ''alpha'' 2 = Some (Some b1)"
proof -
  have wf: "wf_settings (mem world_alpha)"
    by (simp add: world_alpha_def wf_alpha)
  have nb: "\<forall>g. group_of (mem world_alpha) (guild_id (ctx_guild ctx_d)) = Some g \<longrightarrow>
             binding (mem world_alpha) g (guild_id (ctx_guild ctx_d)) = None"
    by (simp add: world_defs alpha_def group_of_def)
  have gb: "group_of (mem world_alpha) (guild_id (ctx_guild ctx_b)) = Some ''alpha'' \<and>
            binding (mem world_alpha) ''alpha'' (guild_id (ctx_guild ctx_b)) = Some (Some b1)"
    by (simp add: world_defs alpha_def guild_b_def table_defs)
  note t1 = enable_disable_need_binding [OF wf, of ctx_d OpenFails, THEN conjunct1, THEN mp, OF nb]
  note t2 = enable_disable_need_binding [OF wf, of ctx_b WriteOk, THEN conjunct2, THEN spec, THEN spec, THEN mp, OF gb]
  have "guild_id (ctx_guild ctx_b) = 2" "ctx_channel ctx_d = d1" "replies world_alpha = []"
    by (simp_all add: world_defs guild_b_def)
  with wf t1 t2 show ?thesis by simp
qed

lemma list_all2_update:
  "list_all2 P xs ys \<Longrightarrow> map_of ys k = Some v \<Longrightarrow> (\<And>x. P x (k, v) \<Longrightarrow> P x (k, v')) \<Longrightarrow>
   list_all2 P xs (AList.update k v' ys)"
  by (induction xs ys rule: list_all2_induct) (auto split: if_splits)

lemma aligned_update:
  "list_all2 aligned gm re \<Longrightarrow> map_of re g = Some fs \<Longrightarrow> map fst fs' = map fst fs \<Longrightarrow>
   list_all2 aligned gm (AList.update g fs' re)"
  by (erule list_all2_update) (auto simp: aligned_def)

lemma wf_set_relay:
  assumes wf: "wf_settings (mem w)"
  shows "wf_settings (mem (fst (set_relay flag dk c w)))"
proof -
  consider "mem (fst (set_relay flag dk c w)) = mem w"
    | g fs where "map_of (relay_enabled (mem w)) g = Some fs"
        "guild_id (ctx_guild c) \<in> fst ` set fs"
        "mem (fst (set_relay flag dk c w)) =
           (mem w)\<lparr>relay_enabled :=
              AList.update g (AList.update (guild_id (ctx_guild c)) flag fs) (relay_enabled (mem w))\<rparr>"
    using set_relay_mem [of flag dk c w] by blast
  then show ?thesis
  proof cases
    case 1
    with wf show ?thesis by simp
  next
    case (2 g fs)
    have k: "map fst (AList.update (guild_id (ctx_guild c)) flag fs) = map fst fs"
      by (rule update_keys_same [OF 2(2)])
    from wf have "list_all2 aligned (group_mappings (mem w))
                    (AList.update g (AList.update (guild_id (ctx_guild c)) flag fs) (relay_enabled (mem w)))"
      unfolding wf_settings_def by (blast intro: aligned_update [OF _ 2(1) k])
    with wf show ?thesis
      by (simp add: wf_settings_def 2(3))
  qed
qed

lemma set_relay_frame:
  "group_mappings (mem (fst (set_relay flag dk c w))) = group_mappings (mem w)"
  "server_groups (mem (fst (set_relay flag dk c w))) = server_groups (mem w)"
  "\<not> (s = guild_id (ctx_guild c) \<and> group_of (mem w) s = Some g) \<Longrightarrow>
   enabled (mem (fst (set_relay flag dk c w))) g s = enabled (mem w) g s"
  using set_relay_mem [of flag dk c w]
  by (auto simp: group_of_def enabled_frame_update)

text \<open>
  C9. \<^verbatim>\<open>enable\<close> and \<^verbatim>\<open>disable\<close> leave \<^verbatim>\<open>group_mappings\<close> and
  \<^verbatim>\<open>server_groups\<close> as they are and change no flag but that of the invoking server
  in its current group. After a disable and an enable every binding holds the channel it
  held before, and the binding of the invoking server is enabled.
\<close>

theorem enable_disable_frame:
  "group_mappings (mem (fst (enable_relay dk c w))) = group_mappings (mem w) \<and>
   group_mappings (mem (fst (disable_relay dk c w))) = group_mappings (mem w) \<and>
   server_groups (mem (fst (enable_relay dk c w))) = server_groups (mem w) \<and>
   server_groups (mem (fst (disable_relay dk c w))) = server_groups (mem w) \<and>
   (\<forall>g s. \<not> (s = guild_id (ctx_guild c) \<and> group_of (mem w) s = Some g) \<longrightarrow>
      enabled (mem (fst (enable_relay dk c w))) g s = enabled (mem w) g s \<and>
      enabled (mem (fst (disable_relay dk c w))) g s = enabled (mem w) g s) \<and>
   (\<forall>g s. binding (mem (fst (enable_relay dk' c (fst (disable_relay dk c w))))) g s =
            binding (mem w) g s) \<and>
   (\<forall>g ch. wf_settings (mem w) \<and> group_of (mem w) (guild_id (ctx_guild c)) = Some g \<and>
            binding (mem w) g (guild_id (ctx_guild c)) = Some ch \<longrightarrow>
      enabled (mem (fst (enable_relay dk' c (fst (disable_relay dk c w))))) g (guild_id (ctx_guild c)))"
proof -
  let ?w1 = "fst (set_relay False dk c w)"
  have bnd: "binding (mem (fst (set_relay flag d c v))) g s = binding (mem v) g s" for flag d v g s
    by (simp add: binding_def bindings_of_def set_relay_frame)
  have grp: "group_of (mem (fst (set_relay flag d c v))) s = group_of (mem v) s" for flag d v s
    by (simp add: group_of_def set_relay_frame)
  have re: "enabled (mem (fst (set_relay True dk' c ?w1))) g (guild_id (ctx_guild c))"
    if "wf_settings (mem w)" "group_of (mem w) (guild_id (ctx_guild c)) = Some g"
       "binding (mem w) g (guild_id (ctx_guild c)) = Some ch" for g ch
  proof -
    have "wf_settings (mem ?w1)" by (rule wf_set_relay [OF that(1)])
    moreover have "group_of (mem ?w1) (guild_id (ctx_guild c)) = Some g"
      by (simp add: grp that(2))
    moreover have "binding (mem ?w1) g (guild_id (ctx_guild c)) = Some ch"
      by (simp add: bnd that(3))
    ultimately show ?thesis
      by (simp add: set_relay_in_place(1))
  qed
  show ?thesis
    unfolding enable_relay_def disable_relay_def
    by (intro conjI allI impI) (simp_all add: set_relay_frame bnd re)
qed

theorem enable_disable_frame_witness:
  "binding (mem (fst (enable_relay WriteOk ctx_b (fst (disable_relay WriteFails ctx_b world_alpha)))))
     ''alpha'' 2 = Some (Some b1) \<and>
   enabled (mem (fst (enable_relay WriteOk ctx_b (fst (disable_relay WriteFails ctx_b world_alpha)))))
     ''alpha'' 2 \<and>
   enabled (mem (fst (disable_relay WriteOk ctx_b world_alpha))) ''alpha'' 3 \<and>
   group_mappings (mem (fst (disable_relay WriteOk ctx_b world_alpha))) = group_mappings alpha"
proof -
  have wf: "wf_settings (mem world_alpha)"
    by (simp add: world_alpha_def wf_alpha)
  have gb: "wf_settings (mem world_alpha) \<and>
            group_of (mem world_alpha) (guild_id (ctx_guild ctx_b)) = Some ''alpha'' \<and>
            binding (mem world_alpha) ''alpha'' (guild_id (ctx_guild ctx_b)) = Some (Some b1)"
    by (simp add: wf) (simp add: world_defs alpha_def guild_b_def table_defs)
  have other: "\<not> ((3::int) = guild_id (ctx_guild ctx_b) \<and> group_of (mem world_alpha) 3 = Some ''alpha'')"
    by (simp add: world_defs guild_b_def)
  note t = enable_disable_frame [of WriteOk ctx_b world_alpha]
  note t' = enable_disable_frame [of WriteFails ctx_b world_alpha WriteOk]
  note f1 = t [THEN conjunct2, THEN conjunct1]
  note f2 = t [THEN conjunct2, THEN conjunct2, THEN conjunct2, THEN conjunct2, THEN conjunct1,
               THEN spec, THEN spec, THEN mp, OF other, THEN conjunct2]
  note f3 = t' [THEN conjunct2, THEN conjunct2, THEN conjunct2, THEN conjunct2, THEN conjunct2,
                THEN conjunct1, THEN spec, THEN spec, of "''alpha''" 2]
  note f4 = t' [THEN conjunct2, THEN conjunct2, THEN conjunct2, THEN conjunct2, THEN conjunct2,
                THEN conjunct2, THEN spec, THEN spec, THEN mp, OF gb]
  have "guild_id (ctx_guild ctx_b) = 2" "mem world_alpha = alpha"
       "binding alpha ''alpha'' 2 = Some (Some b1)" "enabled alpha ''alpha'' 3"
    by (simp_all add: world_defs guild_b_def alpha_def table_defs)
  with f1 f2 f3 f4 show ?thesis by simp
qed

section \<open>Properties of the persistence\<close>

lemma digit_val_digit_char: "d < 10 \<Longrightarrow> digit_val (digit_char d) = Some d"
proof -
  assume "d < 10"
  then consider "d = 0" | "d = 1" | "d = 2" | "d = 3" | "d = 4" | "d = 5" | "d = 6" | "d = 7"
    | "d = 8" | "d = 9" by atomize_elim arith
  then show ?thesis
    by cases (simp_all add: digit_val_def digit_char_def)
qed

lemma digit_val_not_space: "digit_val c = Some d \<Longrightarrow> \<not> is_space c \<and> c \<noteq> CHR ''_''"
  by (auto simp: digit_val_def is_space_def split: if_splits)

lemma str_nat_digits: "all_digits (str_nat n) \<and> str_nat n \<noteq> []"
proof (induction n rule: str_nat.induct)
  case (1 n)
  show ?case
  proof (cases "n < 10")
    case True
    then show ?thesis
      by (subst (1 2) str_nat.simps) (simp add: all_digits_def digit_val_digit_char)
  next
    case False
    with 1 have "all_digits (str_nat (n div 10))" by simp
    moreover have "digit_val (digit_char (n mod 10)) \<noteq> None"
      by (simp add: digit_val_digit_char)
    ultimately show ?thesis using False
      by (subst (1 2) str_nat.simps) (simp add: all_digits_def)
  qed
qed

lemma int_digits_snoc:
  "all_digits ds \<Longrightarrow> digit_val c = Some d \<Longrightarrow>
   int_digits acc (ds @ [c]) = map_option (\<lambda>v. 10 * v + d) (int_digits acc ds)"
proof (induction acc ds rule: int_digits.induct)
  case (1 acc)
  then show ?case by simp
next
  case (2 acc x)
  then obtain e where "digit_val x = Some e" by (auto simp: all_digits_def)
  with 2 digit_val_not_space [of x e] show ?case by simp
next
  case (3 acc x y zs)
  then obtain e where e: "digit_val x = Some e" by (auto simp: all_digits_def)
  from 3(3) have "all_digits (y # zs)" by (simp add: all_digits_def)
  with 3 e digit_val_not_space [of x e] show ?case by simp
qed

lemma py_nat_snoc:
  "all_digits ds \<Longrightarrow> ds \<noteq> [] \<Longrightarrow> digit_val c = Some d \<Longrightarrow>
   py_nat (ds @ [c]) = map_option (\<lambda>v. 10 * v + d) (py_nat ds)"
  by (cases ds) (auto simp: py_nat_def int_digits_snoc all_digits_def split: option.splits)

lemma py_nat_str_nat: "py_nat (str_nat n) = Some n"
proof (induction n rule: str_nat.induct)
  case (1 n)
  show ?case
  proof (cases "n < 10")
    case True
    then show ?thesis
      by (subst str_nat.simps) (simp add: py_nat_def digit_val_digit_char)
  next
    case False
    with 1 have ih: "py_nat (str_nat (n div 10)) = Some (n div 10)" by simp
    have "py_nat (str_nat (n div 10) @ [digit_char (n mod 10)]) =
          map_option (\<lambda>v. 10 * v + n mod 10) (py_nat (str_nat (n div 10)))"
      by (rule py_nat_snoc) (simp_all add: str_nat_digits digit_val_digit_char)
    with ih False show ?thesis
      by (subst str_nat.simps) simp
  qed
qed

lemma strip_id: "s \<noteq> [] \<Longrightarrow> \<not> is_space (hd s) \<Longrightarrow> \<not> is_space (last s) \<Longrightarrow> strip s = s"
proof -
  assume a: "s \<noteq> []" "\<not> is_space (hd s)" "\<not> is_space (last s)"
  then have "dropWhile is_space s = s" by (cases s) simp_all
  moreover from a have "dropWhile is_space (rev s) = rev s"
    by (cases "rev s") (simp_all add: last_rev [symmetric] hd_rev)
  ultimately show ?thesis by (simp add: strip_def)
qed

lemma str_nat_ends:
  "\<not> is_space (hd (str_nat n)) \<and> \<not> is_space (last (str_nat n)) \<and>
   hd (str_nat n) \<noteq> CHR ''-'' \<and> hd (str_nat n) \<noteq> CHR ''+''"
proof -
  from str_nat_digits [of n] have "digit_val (hd (str_nat n)) \<noteq> None" "digit_val (last (str_nat n)) \<noteq> None"
    by (simp_all add: all_digits_def)
  then show ?thesis
    by (auto simp: digit_val_def is_space_def split: if_splits)
qed

lemma py_int_py_str: "py_int (py_str i) = Some i"
proof (cases "i < 0")
  case True
  have "strip (CHR ''-'' # str_nat (nat (- i))) = CHR ''-'' # str_nat (nat (- i))"
    using str_nat_ends [of "nat (- i)"] str_nat_digits [of "nat (- i)"]
    by (intro strip_id) (simp_all add: is_space_def)
  with True show ?thesis
    by (simp add: py_int_def py_str_def py_nat_str_nat)
next
  case False
  have s: "strip (str_nat (nat i)) = str_nat (nat i)"
    using str_nat_ends [of "nat i"] str_nat_digits [of "nat i"]
    by (intro strip_id) simp_all
  obtain c cs where cs: "str_nat (nat i) = c # cs"
    using str_nat_digits [of "nat i"] by (cases "str_nat (nat i)") auto
  with str_nat_ends [of "nat i"] have "c \<noteq> CHR ''-''" "c \<noteq> CHR ''+''" by simp_all
  with False s cs py_nat_str_nat [of "nat i"] show ?thesis
    by (simp add: py_int_def py_str_def)
qed

lemma update_fresh: "k \<notin> fst ` set al \<Longrightarrow> AList.update k v al = al @ [(k, v)]"
  by (induction al) auto

lemma foldl_update_distinct:
  "distinct (map fst (acc @ xs)) \<Longrightarrow> foldl (\<lambda>d (k, v). AList.update k v d) acc xs = acc @ xs"
proof (induction xs arbitrary: acc)
  case Nil
  then show ?case by simp
next
  case (Cons x xs)
  obtain k v where x: "x = (k, v)" by (cases x)
  from Cons.prems have "k \<notin> fst ` set acc" by (auto simp: x)
  then have u: "AList.update k v acc = acc @ [(k, v)]" by (rule update_fresh)
  from Cons.prems have "distinct (map fst ((acc @ [(k, v)]) @ xs))" by (simp add: x)
  from Cons.IH [OF this] show ?case by (simp add: x u)
qed

lemma dict_of_distinct: "distinct (map fst xs) \<Longrightarrow> dict_of xs = xs"
  using foldl_update_distinct [of "[]" xs] by (simp add: dict_of_def)

lemma int_keys_str_keys: "int_keys (str_keys d) = Inr d"
  by (induction d) (auto simp: str_keys_def py_int_py_str)

lemma load_groups_dump_groups:
  "load_groups f (dump_groups d) =
   Inr (map (\<lambda>(k, v). (k, dict_of (map (\<lambda>(gid, x). (gid, f x)) v))) d)"
  by (induction d) (auto simp: dump_groups_def int_keys_str_keys [unfolded str_keys_def] str_keys_def)

lemma channel_ids_resolved:
  "\<forall>(gid, ch) \<in> set v. ch \<noteq> None \<Longrightarrow> channel_ids v = Inr (binding_ids v)"
  by (induction v) (auto simp: binding_ids_def)

lemma channel_ids_Inr:
  "channel_ids v = Inr xs \<Longrightarrow> \<forall>(gid, ch) \<in> set v. ch \<noteq> None"
proof (induction v arbitrary: xs)
  case Nil
  then show ?case by simp
next
  case (Cons x v)
  obtain gid ch where x: "x = (gid, ch)" by (cases x)
  from Cons.prems obtain c ys where "ch = Some c" "channel_ids v = Inr ys"
    by (auto simp: x split: option.splits sum.splits)
  with Cons.IH [of ys] show ?case by (simp add: x)
qed

lemma dump_mappings_resolved:
  "\<forall>(k, v) \<in> set m. \<forall>(gid, ch) \<in> set v. ch \<noteq> None \<Longrightarrow>
   dump_mappings m = Inr (map (\<lambda>(k, v). (k, dict_of (binding_ids v))) m)"
  by (induction m) (auto simp: channel_ids_resolved)

lemma dump_mappings_Inr:
  "dump_mappings m = Inr ys \<Longrightarrow> \<forall>(k, v) \<in> set m. \<forall>(gid, ch) \<in> set v. ch \<noteq> None"
proof (induction m arbitrary: ys)
  case Nil
  then show ?case by simp
next
  case (Cons x m)
  obtain k v where x: "x = (k, v)" by (cases x)
  from Cons.prems obtain xs zs where "channel_ids v = Inr xs" "dump_mappings m = Inr zs"
    by (auto simp: x split: sum.splits)
  with Cons.IH [of zs] channel_ids_Inr [of v xs] show ?case by (simp add: x)
qed

lemma aligned_distinct:
  "list_all2 aligned gm re \<Longrightarrow>
   map fst re = map fst gm \<and> (\<forall>(k, v) \<in> set gm. distinct (map fst v)) \<and>
   (\<forall>(k, v) \<in> set re. distinct (map fst v))"
  by (induction gm re rule: list_all2_induct) (auto simp: aligned_def)

lemma wf_distinct:
  assumes "wf_settings st"
  shows "distinct (map fst (group_mappings st))" "distinct (map fst (relay_enabled st))"
    "distinct (map fst (server_groups st))"
    "\<forall>(k, v) \<in> set (group_mappings st). distinct (map fst v)"
    "\<forall>(k, v) \<in> set (relay_enabled st). distinct (map fst v)"
  using assms aligned_distinct [of "group_mappings st" "relay_enabled st"]
  by (simp_all add: wf_settings_def)

lemma map_fst_binding_ids [simp]: "map fst (binding_ids v) = map fst v"
  by (simp add: binding_ids_def comp_def case_prod_beta)

lemma map_snd_dict_of:
  "\<forall>(k, v) \<in> set xs. distinct (map fst (f v)) \<Longrightarrow>
   map (\<lambda>(k, v). (k, dict_of (f v))) xs = map (\<lambda>(k, v). (k, f v)) xs"
  by (induction xs) (auto simp: dict_of_distinct)

lemma fst_comp_keep [simp]: "fst \<circ> (\<lambda>(k, v). (k, f v)) = fst"
  by (auto simp: fun_eq_iff)

lemma map_fst_keep: "map fst (map (\<lambda>(k, v). (k, f v)) xs) = map fst xs"
  by (induction xs) auto

lemma save_settings_document:
  assumes wf: "wf_settings (mem w)"
    and res: "\<forall>(k, v) \<in> set (group_mappings (mem w)). \<forall>(gid, ch) \<in> set v. ch \<noteq> None"
  shows "save_settings WriteOk w =
    (w\<lparr>settings_file := Doc
          \<lparr>doc_group_mappings =
             Some (dump_groups (map (\<lambda>(k, v). (k, binding_ids v)) (group_mappings (mem w)))),
           doc_relay_enabled = Some (dump_groups (relay_enabled (mem w))),
           doc_server_groups = Some (str_keys (server_groups (mem w)))\<rparr>,
        console := console w @ [Printed ''Settings saved successfully.'']\<rparr>, None)"
proof -
  note d = wf_distinct [OF wf]
  have 1: "map (\<lambda>(k, v). (k, dict_of (binding_ids v))) (group_mappings (mem w)) =
           map (\<lambda>(k, v). (k, binding_ids v)) (group_mappings (mem w))"
    by (rule map_snd_dict_of) (use d(4) in auto)
  have 2: "dict_of (map (\<lambda>(k, v). (k, binding_ids v)) (group_mappings (mem w))) =
           map (\<lambda>(k, v). (k, binding_ids v)) (group_mappings (mem w))"
    by (rule dict_of_distinct) (simp only: map_fst_keep d(1))
  have 3: "map (\<lambda>(k, v). (k, dict_of v)) (relay_enabled (mem w)) = relay_enabled (mem w)"
    using map_snd_dict_of [of "relay_enabled (mem w)" "\<lambda>v. v"] d(5) by simp
  have 4: "dict_of (relay_enabled (mem w)) = relay_enabled (mem w)"
    by (rule dict_of_distinct) (rule d(2))
  show ?thesis
    by (simp add: save_settings_def dump_mappings_resolved [OF res] 1 2 3 4)
qed

lemma load_settings_document:
  assumes f: "settings_file v = Doc
          \<lparr>doc_group_mappings = Some (dump_groups ids),
           doc_relay_enabled = Some (dump_groups re),
           doc_server_groups = Some (str_keys sg)\<rparr>"
    and d: "distinct (map fst ids)" "\<forall>(k, x) \<in> set ids. distinct (map fst x)"
      "distinct (map fst re)" "\<forall>(k, x) \<in> set re. distinct (map fst x)" "distinct (map fst sg)"
  shows "load_settings cache v =
    v\<lparr>mem := \<lparr>group_mappings =
                  map (\<lambda>(k, x). (k, map (\<lambda>(gid, cid). (gid, get_channel cache cid)) x)) ids,
                relay_enabled = re, server_groups = sg\<rparr>,
      console := console v @ [Printed ''Settings loaded successfully.'']\<rparr>"
proof -
  let ?gm = "map (\<lambda>(k, x). (k, map (\<lambda>(gid, cid). (gid, get_channel cache cid)) x)) ids"
  have 1: "map (\<lambda>(k, x). (k, dict_of (map (\<lambda>(gid, cid). (gid, get_channel cache cid)) x))) ids = ?gm"
    by (rule map_snd_dict_of) (use d(2) in \<open>auto simp: map_fst_keep\<close>)
  have 2: "dict_of ?gm = ?gm"
    by (rule dict_of_distinct) (simp only: map_fst_keep d(1))
  have 3: "map (\<lambda>(k, x). (k, dict_of x)) re = re"
    using map_snd_dict_of [of re "\<lambda>v. v"] d(4) by simp
  have 4: "dict_of re = re" "dict_of sg = sg"
    by (rule dict_of_distinct, rule d(3)) (rule dict_of_distinct, rule d(5))
  show ?thesis
    by (simp add: load_settings_def f load_groups_dump_groups int_keys_str_keys 1 2 3 4 Let_def)
qed


lemma aligned_map_inner:
  "list_all2 aligned gm re \<Longrightarrow> (\<And>v. map fst (F v) = map fst v) \<Longrightarrow>
   list_all2 aligned (map (\<lambda>(k, v). (k, F v)) gm) re"
  by (induction gm re rule: list_all2_induct) (auto simp: aligned_def)










section \<open>Properties of the mention rewriter\<close>
















section \<open>The shape of the tables is kept\<close>

lemma wf_empty: "wf_settings empty_settings"
  by (simp add: wf_settings_def empty_settings_def)

lemma mem_after_save:
  "mem (fst (case save_settings dk w1 of (w2, Some e) \<Rightarrow> (w2, Some e)
             | (w2, None) \<Rightarrow> (send_reply c r w2, None))) = mem w1"
  using mem_save_settings [of dk w1]
  by (cases "save_settings dk w1") (auto simp: mem_send_reply split: option.splits)

lemma wf_set_group:
  assumes "wf_settings (mem w)"
  shows "wf_settings (mem (fst (set_group dk c g w)))"
  using assms by (simp add: set_group_def Let_def mem_after_save wf_settings_def distinct_update)

lemma list_all2_update_both:
  "list_all2 P xs ys \<Longrightarrow> map fst xs = map fst ys \<Longrightarrow>
   (\<And>a b. map_of xs k = Some a \<Longrightarrow> map_of ys k = Some b \<Longrightarrow> P (k, a) (k, b) \<Longrightarrow> P (k, a') (k, b')) \<Longrightarrow>
   k \<in> fst ` set xs \<Longrightarrow>
   list_all2 P (AList.update k a' xs) (AList.update k b' ys)"
proof (induction xs ys rule: list_all2_induct)
  case Nil
  then show ?case by simp
next
  case (Cons x xs y ys)
  obtain kx a where x: "x = (kx, a)" by (cases x)
  obtain ky b where y: "y = (ky, b)" by (cases y)
  from Cons.prems(1) have k: "kx = ky" and m: "map fst xs = map fst ys" by (simp_all add: x y)
  show ?case
  proof (cases "kx = k")
    case True
    with Cons.prems(2) [of a b] Cons.hyps(1) k have "P (k, a') (k, b')" by (simp add: x y)
    with True k Cons.hyps(2) show ?thesis by (simp add: x y)
  next
    case False
    with Cons.prems(3) have "k \<in> fst ` set xs" by (auto simp: x)
    moreover have "\<And>a b. map_of xs k = Some a \<Longrightarrow> map_of ys k = Some b \<Longrightarrow> P (k, a) (k, b) \<Longrightarrow> P (k, a') (k, b')"
      using Cons.prems(2) False k by (simp add: x y)
    ultimately have "list_all2 P (AList.update k a' xs) (AList.update k b' ys)"
      using Cons.IH m by blast
    with False k Cons.hyps(1) show ?thesis by (simp add: x y)
  qed
qed

lemma wf_add_group:
  assumes wf: "wf_settings st" and g: "g \<noteq> []" and new: "map_of (group_mappings st) g = None"
  shows "wf_settings (st\<lparr>group_mappings := AList.update g [] (group_mappings st),
                         relay_enabled := AList.update g [] (relay_enabled st)\<rparr>)"
proof -
  from wf have al: "list_all2 aligned (group_mappings st) (relay_enabled st)"
    by (simp add: wf_settings_def)
  from new have 1: "g \<notin> fst ` set (group_mappings st)"
    by (simp add: map_of_eq_None_iff)
  with aligned_distinct [OF al] have 2: "g \<notin> fst ` set (relay_enabled st)"
    by (metis set_map)
  have "list_all2 aligned (group_mappings st @ [(g, [])]) (relay_enabled st @ [(g, [])])"
    using al g by (intro list_all2_appendI) (simp_all add: aligned_def)
  with wf show ?thesis
    by (simp add: wf_settings_def update_fresh [OF 1] update_fresh [OF 2] distinct_update)
       (use 1 in auto)
qed

lemma wf_bind:
  assumes wf: "wf_settings st" and bs: "map_of (group_mappings st) g = Some bs"
    and fs: "map_of (relay_enabled st) g = Some fs"
  shows "wf_settings (st\<lparr>group_mappings := AList.update g (AList.update s x bs) (group_mappings st),
                         relay_enabled := AList.update g (AList.update s y fs) (relay_enabled st)\<rparr>)"
proof -
  from wf have al: "list_all2 aligned (group_mappings st) (relay_enabled st)"
    by (simp add: wf_settings_def)
  have "list_all2 aligned (AList.update g (AList.update s x bs) (group_mappings st))
          (AList.update g (AList.update s y fs) (relay_enabled st))"
  proof (rule list_all2_update_both [OF al])
    show "map fst (group_mappings st) = map fst (relay_enabled st)"
      using aligned_distinct [OF al] by simp
    show "g \<in> fst ` set (group_mappings st)"
      using bs by (metis map_of_eq_None_iff option.distinct(1))
    show "aligned (g, AList.update s x bs) (g, AList.update s y fs)"
      if "map_of (group_mappings st) g = Some a" "map_of (relay_enabled st) g = Some b"
         "aligned (g, a) (g, b)" for a b
      using that bs fs by (auto simp: aligned_def update_keys)
  qed
  with wf show ?thesis
    by (simp add: wf_settings_def distinct_update)
qed

lemma wf_set_shared_channel:
  assumes wf: "wf_settings (mem w)"
  shows "wf_settings (mem (fst (set_shared_channel dk c ch w)))"
proof (cases "map_of (server_groups (mem w)) (guild_id (ctx_guild c))")
  case None
  with wf show ?thesis by (simp add: set_shared_channel_def mem_send_reply)
next
  case (Some g)
  show ?thesis
  proof (cases "g = []")
    case True
    with wf Some show ?thesis by (simp add: set_shared_channel_def mem_send_reply)
  next
    case False
    let ?st1 = "if map_of (group_mappings (mem w)) g = None
                then (mem w)\<lparr>group_mappings := AList.update g [] (group_mappings (mem w)),
                             relay_enabled := AList.update g [] (relay_enabled (mem w))\<rparr>
                else mem w"
    have wf1: "wf_settings ?st1"
      using wf wf_add_group [OF wf False] by simp
    obtain bs where bs: "map_of (group_mappings ?st1) g = Some bs"
      by (cases "map_of (group_mappings (mem w)) g") (auto simp: update_conv')
    from wf_group [OF wf1 bs] obtain fs where fs: "map_of (relay_enabled ?st1) g = Some fs"
      by blast
    have "mem (fst (set_shared_channel dk c ch w)) =
          ?st1\<lparr>group_mappings :=
                  AList.update g (AList.update (guild_id (ctx_guild c)) (Some ch) bs) (group_mappings ?st1),
                relay_enabled :=
                  AList.update g (AList.update (guild_id (ctx_guild c)) True fs) (relay_enabled ?st1)\<rparr>"
      using bs fs False
      by (simp add: set_shared_channel_def Some Let_def mem_after_save del: AList.update.simps)
    with wf_bind [OF wf1 bs fs] show ?thesis by simp
  qed
qed

lemma load_saved:
  assumes wf: "wf_settings (mem w)"
    and saved: "save_settings WriteOk w = (w1, None)"
    and restart: "settings_file v = settings_file w1"
  shows "mem (load_settings cache v) =
           \<lparr>group_mappings =
              map (\<lambda>(k, x). (k, map (\<lambda>(gid, cid). (gid, get_channel cache cid)) (binding_ids x)))
                (group_mappings (mem w)),
            relay_enabled = relay_enabled (mem w),
            server_groups = server_groups (mem w)\<rparr>"
    and "wf_settings (mem (load_settings cache v))"
proof -
  let ?gm = "group_mappings (mem w)"
  let ?ids = "map (\<lambda>(k, v). (k, binding_ids v)) ?gm"
  let ?lgm = "map (\<lambda>(k, x). (k, map (\<lambda>(gid, cid). (gid, get_channel cache cid)) (binding_ids x))) ?gm"
  note d = wf_distinct [OF wf]
  from saved obtain gm where "dump_mappings ?gm = Inr gm"
    by (auto simp: save_settings_def split: sum.splits)
  then have res: "\<forall>(k, v) \<in> set ?gm. \<forall>(gid, ch) \<in> set v. ch \<noteq> None"
    by (rule dump_mappings_Inr)
  from save_settings_document [OF wf res] saved restart
  have f: "settings_file v = Doc
          \<lparr>doc_group_mappings = Some (dump_groups ?ids),
           doc_relay_enabled = Some (dump_groups (relay_enabled (mem w))),
           doc_server_groups = Some (str_keys (server_groups (mem w)))\<rparr>"
    by auto
  have "load_settings cache v =
    v\<lparr>mem := \<lparr>group_mappings =
                  map (\<lambda>(k, x). (k, map (\<lambda>(gid, cid). (gid, get_channel cache cid)) x)) ?ids,
                relay_enabled = relay_enabled (mem w),
                server_groups = server_groups (mem w)\<rparr>,
      console := console v @ [Printed ''Settings loaded successfully.'']\<rparr>"
    by (rule load_settings_document [OF f])
       (use d in \<open>auto simp: map_fst_keep\<close>)
  then show m: "mem (load_settings cache v) =
           \<lparr>group_mappings = ?lgm, relay_enabled = relay_enabled (mem w),
            server_groups = server_groups (mem w)\<rparr>"
    by (simp add: comp_def case_prod_beta)
  have al: "list_all2 aligned ?lgm (relay_enabled (mem w))"
    by (rule aligned_map_inner) (use wf in \<open>simp_all add: wf_settings_def map_fst_keep\<close>)
  have dl: "distinct (map fst ?lgm)"
    by (simp only: map_fst_keep d(1))
  show "wf_settings (mem (load_settings cache v))"
    unfolding m wf_settings_def using al dl d(3) by simp
qed

text \<open>
  Every table the bot can hold has the shape \<^const>\<open>wf_settings\<close>, which the
  theorems above assume.
\<close>

lemma reachable_wf: "reachable st \<Longrightarrow> wf_settings st"
proof (induction rule: reachable.induct)
  case start
  show ?case by (rule wf_empty)
next
  case (group w dk c g)
  then show ?case by (simp add: wf_set_group)
next
  case (bind w dk c ch)
  then show ?case by (simp add: wf_set_shared_channel)
next
  case (enable w dk c)
  then show ?case by (simp add: enable_relay_def wf_set_relay)
next
  case (disable w dk c)
  then show ?case by (simp add: disable_relay_def wf_set_relay)
next
  case (restart w w1 v cache)
  from load_saved(2) [OF restart.IH restart.hyps(2) restart.hyps(3)] show ?case .
qed

text \<open>
  The tables of \<^const>\<open>alpha_b_unresolved\<close> are what a restart loads from the file
  group alpha wrote, once the channel of server B is gone from the client's cache.
\<close>

lemma py_int_small: "py_int ''1'' = Some 1" "py_int ''2'' = Some 2" "py_int ''3'' = Some 3"
  by code_simp+

lemma load_with_deleted_channel: "mem (load_settings [a1, c1] restarted) = alpha_b_unresolved"
  by (simp add: load_settings_def restarted_def alpha_document_def py_int_small dict_of_def
        get_channel_def alpha_b_unresolved_def alpha_def empty_settings_def a1_def c1_def)

end
